theory Spec2Isabelle
  imports Main "HOL-Library.Multiset" "HOL-Library.Char_ord" "HOL-Library.List_Lexorder"
begin

section \<open>Diff view (diff.js): the line walk of computeDiff\<close>

text \<open>
  An entry of the result array is the object \<^verbatim>\<open>{ type, content }\<close>; the three strings
  the code writes into \<^verbatim>\<open>type\<close> are the constructors of \<open>line_type\<close>.
\<close>

datatype line_type = unchanged | added | removed

record diff_line =
  dl_type :: line_type
  dl_content :: string

text \<open>
  Reading a JavaScript array at an index: the element inside the array, \<^verbatim>\<open>undefined\<close>
  (here \<open>None\<close>) outside. The lines are strings, so \<^verbatim>\<open>oldLines[i + 1] === newLine\<close> is
  false whenever \<open>i + 1\<close> is out of range.
\<close>

definition lineAt :: "string list \<Rightarrow> nat \<Rightarrow> string option" where
  "lineAt ls i = (if i < length ls then Some (ls ! i) else None)"

text \<open>
  The \<^verbatim>\<open>while\<close> loop of computeDiff, with its variables \<open>i\<close>, \<open>j\<close> and \<open>result\<close> as
  arguments. \<^verbatim>\<open>result.push(x)\<close> appends at the end.
\<close>

function computeDiff_loop ::
  "string list \<Rightarrow> string list \<Rightarrow> nat \<Rightarrow> nat \<Rightarrow> diff_line list \<Rightarrow> diff_line list" where
  "computeDiff_loop oldLines newLines i j result =
     (if i < length oldLines \<or> j < length newLines then
        (if i \<ge> length oldLines then
           computeDiff_loop oldLines newLines i (j + 1)
             (result @ [\<lparr>dl_type = added, dl_content = newLines ! j\<rparr>])
         else if j \<ge> length newLines then
           computeDiff_loop oldLines newLines (i + 1) j
             (result @ [\<lparr>dl_type = removed, dl_content = oldLines ! i\<rparr>])
         else if oldLines ! i = newLines ! j then
           computeDiff_loop oldLines newLines (i + 1) (j + 1)
             (result @ [\<lparr>dl_type = unchanged, dl_content = oldLines ! i\<rparr>])
         else
           (let oldMatchesNext = (lineAt oldLines (i + 1) = Some (newLines ! j));
                newMatchesNext = (lineAt newLines (j + 1) = Some (oldLines ! i))
            in if oldMatchesNext \<and> \<not> newMatchesNext then
                 computeDiff_loop oldLines newLines (i + 1) j
                   (result @ [\<lparr>dl_type = removed, dl_content = oldLines ! i\<rparr>])
               else if newMatchesNext \<and> \<not> oldMatchesNext then
                 computeDiff_loop oldLines newLines i (j + 1)
                   (result @ [\<lparr>dl_type = added, dl_content = newLines ! j\<rparr>])
               else
                 computeDiff_loop oldLines newLines (i + 1) (j + 1)
                   (result @ [\<lparr>dl_type = removed, dl_content = oldLines ! i\<rparr>,
                              \<lparr>dl_type = added, dl_content = newLines ! j\<rparr>])))
      else result)"
  by pat_completeness auto
termination
  by (relation "measure (\<lambda>(oldLines, newLines, i, j, result).
        (length oldLines - i) + (length newLines - j))") auto

declare computeDiff_loop.simps [simp del]

definition computeDiff :: "string list \<Rightarrow> string list \<Rightarrow> diff_line list" where
  "computeDiff oldLines newLines = computeDiff_loop oldLines newLines 0 0 []"

text \<open>
  \<^verbatim>\<open>text.split('\n')\<close>: the pieces between line feeds; a text without a line feed is
  one line, the empty text is one empty line.
\<close>

fun split_newline :: "string \<Rightarrow> string list" where
  "split_newline [] = [[]]"
| "split_newline (c # cs) =
     (if c = CHR 0x0A then [] # split_newline cs
      else (case split_newline cs of [] \<Rightarrow> [[c]] | l # ls \<Rightarrow> (c # l) # ls))"

text \<open>
  The diff of two texts as renderDiff computes it before rendering: both texts split into
  lines, then computeDiff.
\<close>

definition diff_texts :: "string \<Rightarrow> string \<Rightarrow> diff_line list" where
  "diff_texts oldText newText = computeDiff (split_newline oldText) (split_newline newText)"

text \<open>
  The walk on the lines still to be read, following the loop's own case order: a lookahead
  on one side decides the step only when the lookahead on the other side fails.
\<close>

fun greedy_walk :: "string list \<Rightarrow> string list \<Rightarrow> diff_line list" where
  "greedy_walk [] [] = []"
| "greedy_walk [] (y # ys) = \<lparr>dl_type = added, dl_content = y\<rparr> # greedy_walk [] ys"
| "greedy_walk (x # xs) [] = \<lparr>dl_type = removed, dl_content = x\<rparr> # greedy_walk xs []"
| "greedy_walk (x # xs) (y # ys) =
     (if x = y then \<lparr>dl_type = unchanged, dl_content = x\<rparr> # greedy_walk xs ys
      else if lineAt xs 0 = Some y \<and> lineAt ys 0 \<noteq> Some x then
        \<lparr>dl_type = removed, dl_content = x\<rparr> # greedy_walk xs (y # ys)
      else if lineAt ys 0 = Some x \<and> lineAt xs 0 \<noteq> Some y then
        \<lparr>dl_type = added, dl_content = y\<rparr> # greedy_walk (x # xs) ys
      else \<lparr>dl_type = removed, dl_content = x\<rparr> # \<lparr>dl_type = added, dl_content = y\<rparr>
             # greedy_walk xs ys)"

text \<open>
  The walk in the words of the specification: the lookahead on the old side is tried
  first and decides alone, then the lookahead on the new side, and both lines are emitted
  only when neither lookahead matches.
\<close>

fun spec_walk :: "string list \<Rightarrow> string list \<Rightarrow> diff_line list" where
  "spec_walk [] [] = []"
| "spec_walk [] (y # ys) = \<lparr>dl_type = added, dl_content = y\<rparr> # spec_walk [] ys"
| "spec_walk (x # xs) [] = \<lparr>dl_type = removed, dl_content = x\<rparr> # spec_walk xs []"
| "spec_walk (x # xs) (y # ys) =
     (if x = y then \<lparr>dl_type = unchanged, dl_content = x\<rparr> # spec_walk xs ys
      else if lineAt xs 0 = Some y then
        \<lparr>dl_type = removed, dl_content = x\<rparr> # spec_walk xs (y # ys)
      else if lineAt ys 0 = Some x then
        \<lparr>dl_type = added, dl_content = y\<rparr> # spec_walk (x # xs) ys
      else \<lparr>dl_type = removed, dl_content = x\<rparr> # \<lparr>dl_type = added, dl_content = y\<rparr>
             # spec_walk xs ys)"


section \<open>Database layer (db.js): records and tables\<close>

text \<open>
  The two record types of the schema. Identifiers are strings
  (\<^verbatim>\<open>crypto.randomUUID()\<close>), timestamps are the integers of \<^verbatim>\<open>Date.now()\<close>.
\<close>

record prompt =
  p_id :: string
  p_title :: string
  p_description :: string
  p_tags :: "string list"
  p_createdAt :: int
  p_updatedAt :: int
  p_archived :: bool

record version =
  v_id :: string
  v_promptId :: string
  v_version :: string
  v_content :: string
  v_notes :: string
  v_createdAt :: int
  v_updatedAt :: int

text \<open>
  The database \<^verbatim>\<open>db\<close>: the tables \<^verbatim>\<open>prompts\<close> and \<^verbatim>\<open>versions\<close>, both declared with the
  unique inbound primary key \<^verbatim>\<open>&id\<close>. A table is the list of its records; a table of the
  running program holds no two records with the same id (\<open>wf_db\<close>). Reads that return
  arrays go through the key order, as an IndexedDB cursor does.
\<close>

record db =
  prompts :: "prompt list"
  versions :: "version list"

definition wf_db :: "db \<Rightarrow> bool" where
  "wf_db d = (distinct (map p_id (prompts d)) \<and> distinct (map v_id (versions d)))"

text \<open>
  The errors an operation can end with: \<^verbatim>\<open>Error('Version not found')\<close>,
  \<^verbatim>\<open>Error('Invalid import data format')\<close>, and the \<^verbatim>\<open>ConstraintError\<close> with which the
  storage library rejects \<^verbatim>\<open>add\<close> on a key that is already in the table. Every write is
  its own transaction, so an operation that ends with an error leaves the writes made
  before it: each operation returns its outcome together with the database.
\<close>

datatype error = NotFound | InvalidFormat | ConstraintError

subsection \<open>The table operations of the storage library that db.js calls\<close>

text \<open>
  The library (Dexie, shipped as lib/dexie.min.js) is not among the sources; the
  operations below follow its documented behaviour.
  \<^item> \<^verbatim>\<open>table.get(key)\<close>: the record with that key, \<^verbatim>\<open>undefined\<close> when there is none.
  \<^item> \<^verbatim>\<open>table.add(item)\<close>: stores a record under a new key; rejected with
    \<^verbatim>\<open>ConstraintError\<close>, writing nothing, when the key is in the table.
  \<^item> \<^verbatim>\<open>table.update(key, changes)\<close>: sets the given properties of the record with that
    key; when there is no such record it writes nothing and resolves (with the count 0,
    which db.js never reads).
  \<^item> \<^verbatim>\<open>versions.where('promptId').equals(p)\<close>: the records with that promptId, in the
    order of the index, which among equal promptIds is the order of the primary key.
  \<^item> \<^verbatim>\<open>collection.reverse().sortBy(k)\<close>: reads the collection backwards and sorts the
    array with the descending comparator; the sort is stable.
\<close>

definition prompts_get :: "string \<Rightarrow> db \<Rightarrow> prompt option" where
  "prompts_get k d = find (\<lambda>p. p_id p = k) (prompts d)"

definition versions_get :: "string \<Rightarrow> db \<Rightarrow> version option" where
  "versions_get k d = find (\<lambda>v. v_id v = k) (versions d)"

definition prompts_add :: "prompt \<Rightarrow> db \<Rightarrow> error + db" where
  "prompts_add p d =
     (if p_id p \<in> set (map p_id (prompts d)) then Inl ConstraintError
      else Inr (d\<lparr>prompts := prompts d @ [p]\<rparr>))"

definition versions_add :: "version \<Rightarrow> db \<Rightarrow> error + db" where
  "versions_add v d =
     (if v_id v \<in> set (map v_id (versions d)) then Inl ConstraintError
      else Inr (d\<lparr>versions := versions d @ [v]\<rparr>))"

text \<open>
  The \<^verbatim>\<open>changes\<close> object of \<^verbatim>\<open>prompts.update\<close>: each property is given or left out. The
  key itself is not among them: updatePrompt's callers never pass it, and importData
  passes the key's own value.
\<close>

record prompt_changes =
  c_title :: "string option"
  c_description :: "string option"
  c_tags :: "string list option"
  c_createdAt :: "int option"
  c_updatedAt :: "int option"
  c_archived :: "bool option"

definition no_changes :: prompt_changes where
  "no_changes = \<lparr>c_title = None, c_description = None, c_tags = None, c_createdAt = None,
                  c_updatedAt = None, c_archived = None\<rparr>"

definition apply_changes :: "prompt_changes \<Rightarrow> prompt \<Rightarrow> prompt" where
  "apply_changes c p =
     p\<lparr>p_title := (case c_title c of None \<Rightarrow> p_title p | Some x \<Rightarrow> x),
       p_description := (case c_description c of None \<Rightarrow> p_description p | Some x \<Rightarrow> x),
       p_tags := (case c_tags c of None \<Rightarrow> p_tags p | Some x \<Rightarrow> x),
       p_createdAt := (case c_createdAt c of None \<Rightarrow> p_createdAt p | Some x \<Rightarrow> x),
       p_updatedAt := (case c_updatedAt c of None \<Rightarrow> p_updatedAt p | Some x \<Rightarrow> x),
       p_archived := (case c_archived c of None \<Rightarrow> p_archived p | Some x \<Rightarrow> x)\<rparr>"

text \<open>\<^verbatim>\<open>db.prompts.update(key, changes)\<close>.\<close>

definition prompts_update_at :: "string \<Rightarrow> prompt_changes \<Rightarrow> db \<Rightarrow> db" where
  "prompts_update_at k c d =
     d\<lparr>prompts := map (\<lambda>p. if p_id p = k then apply_changes c p else p) (prompts d)\<rparr>"

definition where_promptId :: "string \<Rightarrow> db \<Rightarrow> version list" where
  "where_promptId promptId d =
     filter (\<lambda>v. v_promptId v = promptId) (sort_key v_id (versions d))"

definition reverse_sortBy_createdAt :: "version list \<Rightarrow> version list" where
  "reverse_sortBy_createdAt vs = sort_key (\<lambda>v. - v_createdAt v) (rev vs)"

subsection \<open>Prompts and versions\<close>

text \<open>
  The values read from the environment are arguments: \<open>uuid\<close> is the result of
  \<^verbatim>\<open>crypto.randomUUID()\<close>, \<open>now\<close> the result of \<^verbatim>\<open>Date.now()\<close> (createVersion reads the
  clock once itself, and updatePrompt reads it again).
\<close>

definition updatePrompt ::
  "int \<Rightarrow> string \<Rightarrow> prompt_changes \<Rightarrow> db \<Rightarrow> (error + unit) \<times> db" where
  "updatePrompt now ident updates d =
     (let updateData = updates\<lparr>c_updatedAt := Some now\<rparr>
      in (Inr (), prompts_update_at ident updateData d))"

text \<open>The decimal numeral that a template literal writes for a number.\<close>

function decimal :: "nat \<Rightarrow> string" where
  "decimal n =
     (if n < 10 then [''0123456789'' ! n]
      else decimal (n div 10) @ [''0123456789'' ! (n mod 10)])"
  by pat_completeness auto
termination
  by (relation "measure id") auto

declare decimal.simps [simp del]

text \<open>
  The number a decimal numeral stands for, read digit by digit from the left; it says what
  the characters written by \<open>decimal\<close> mean.
\<close>

definition digit_value :: "char \<Rightarrow> nat" where
  "digit_value c = of_char c - 48"

definition decimal_value :: "string \<Rightarrow> nat" where
  "decimal_value s = foldl (\<lambda>a c. 10 * a + digit_value c) 0 s"

definition createVersion ::
  "string \<Rightarrow> int \<Rightarrow> int \<Rightarrow> string \<Rightarrow> string \<Rightarrow> string \<Rightarrow> db \<Rightarrow> (error + string) \<times> db" where
  "createVersion uuid now now' promptId content notes d =
     (let existingVersions = where_promptId promptId d;
          versionNumber = length existingVersions + 1;
          versionString = ''v'' @ decimal versionNumber;
          version = \<lparr>v_id = uuid, v_promptId = promptId, v_version = versionString,
                     v_content = (if content = [] then [] else content),
                     v_notes = (if notes = [] then [] else notes),
                     v_createdAt = now, v_updatedAt = now\<rparr>
      in case versions_add version d of
           Inl e \<Rightarrow> (Inl e, d)
         | Inr d1 \<Rightarrow>
             (case updatePrompt now' promptId no_changes d1 of
                (Inl e, d2) \<Rightarrow> (Inl e, d2)
              | (Inr u, d2) \<Rightarrow> (Inr uuid, d2)))"

definition getVersion :: "string \<Rightarrow> db \<Rightarrow> version option" where
  "getVersion ident d = versions_get ident d"

definition getVersionsByPrompt :: "string \<Rightarrow> db \<Rightarrow> version list" where
  "getVersionsByPrompt promptId d = reverse_sortBy_createdAt (where_promptId promptId d)"

definition getLatestVersion :: "string \<Rightarrow> db \<Rightarrow> version option" where
  "getLatestVersion promptId d =
     (let versions' = getVersionsByPrompt promptId d
      in if length versions' > 0 then Some (versions' ! 0) else None)"

definition rollbackToVersion ::
  "string \<Rightarrow> int \<Rightarrow> int \<Rightarrow> string \<Rightarrow> db \<Rightarrow> (error + string) \<times> db" where
  "rollbackToVersion uuid now now' versionId d =
     (case getVersion versionId d of
        None \<Rightarrow> (Inl NotFound, d)
      | Some oldVersion \<Rightarrow>
          createVersion uuid now now' (v_promptId oldVersion) (v_content oldVersion)
            (''Rollback to '' @ v_version oldVersion) d)"

subsection \<open>Import\<close>

text \<open>
  The import document: \<^verbatim>\<open>data.prompts\<close> and \<^verbatim>\<open>data.versions\<close> are arrays or missing.
  The result counts \<^verbatim>\<open>{ imported, skipped, merged }\<close>.
\<close>

record import_data =
  d_prompts :: "prompt list option"
  d_versions :: "version list option"

record import_result =
  imported :: nat
  skipped :: nat
  merged :: nat

definition changes_of_prompt :: "prompt \<Rightarrow> prompt_changes" where
  "changes_of_prompt p =
     \<lparr>c_title = Some (p_title p), c_description = Some (p_description p),
      c_tags = Some (p_tags p), c_createdAt = Some (p_createdAt p),
      c_updatedAt = Some (p_updatedAt p), c_archived = Some (p_archived p)\<rparr>"

text \<open>
  The inner loop of the merge branch: \<open>existingVersions\<close> was read once before the loop;
  an incoming version with none of its ids is added, and the counter \<open>m\<close> (the
  variable \<^verbatim>\<open>merged\<close>) counts it once the write has gone through.
\<close>

fun import_new_versions ::
  "version list \<Rightarrow> version list \<Rightarrow> db \<Rightarrow> nat \<Rightarrow> (error + nat) \<times> db" where
  "import_new_versions existingVersions [] d m = (Inr m, d)"
| "import_new_versions existingVersions (version # rest) d m =
     (let versionExists = list_ex (\<lambda>v. v_id v = v_id version) existingVersions
      in if \<not> versionExists then
           (case versions_add version d of
              Inl e \<Rightarrow> (Inl e, d)
            | Inr d1 \<Rightarrow> import_new_versions existingVersions rest d1 (m + 1))
         else import_new_versions existingVersions rest d m)"

text \<open>The inner loop of the branch for a new prompt: every version is added.\<close>

fun add_all_versions :: "version list \<Rightarrow> db \<Rightarrow> (error + unit) \<times> db" where
  "add_all_versions [] d = (Inr (), d)"
| "add_all_versions (version # rest) d =
     (case versions_add version d of
        Inl e \<Rightarrow> (Inl e, d)
      | Inr d1 \<Rightarrow> add_all_versions rest d1)"

text \<open>
  The body of the loop over \<^verbatim>\<open>data.prompts\<close>, for one incoming prompt; \<open>now\<close> is what
  \<^verbatim>\<open>Date.now()\<close> returns in this iteration.
\<close>

definition import_prompt ::
  "version list \<Rightarrow> bool \<Rightarrow> int \<Rightarrow> prompt \<Rightarrow> db \<Rightarrow> import_result
     \<Rightarrow> (error + import_result) \<times> db" where
  "import_prompt data_versions merge now prompt d r =
     (let existing = prompts_get (p_id prompt) d
      in if existing \<noteq> None \<and> \<not> merge then (Inr (r\<lparr>skipped := skipped r + 1\<rparr>), d)
         else if existing \<noteq> None \<and> merge then
           (let existingVersions = getVersionsByPrompt (p_id prompt) d;
                importVersions = filter (\<lambda>v. v_promptId v = p_id prompt) data_versions
            in case import_new_versions existingVersions importVersions d (merged r) of
                 (Inl e, d1) \<Rightarrow> (Inl e, d1)
               | (Inr m, d1) \<Rightarrow>
                   (Inr (r\<lparr>merged := m\<rparr>),
                    prompts_update_at (p_id prompt)
                      ((changes_of_prompt prompt)\<lparr>c_updatedAt := Some now\<rparr>) d1))
         else
           (case prompts_add prompt d of
              Inl e \<Rightarrow> (Inl e, d)
            | Inr d1 \<Rightarrow>
                (let versions' = filter (\<lambda>v. v_promptId v = p_id prompt) data_versions
                 in case add_all_versions versions' d1 of
                      (Inl e, d2) \<Rightarrow> (Inl e, d2)
                    | (Inr u, d2) \<Rightarrow> (Inr (r\<lparr>imported := imported r + 1\<rparr>), d2))))"

text \<open>
  The loop over \<^verbatim>\<open>data.prompts\<close>; \<open>clock k\<close> is the reading of the clock in iteration
  \<open>k\<close>. An error ends the loop with the writes made so far.
\<close>

fun import_loop ::
  "version list \<Rightarrow> bool \<Rightarrow> (nat \<Rightarrow> int) \<Rightarrow> nat \<Rightarrow> prompt list \<Rightarrow> db \<Rightarrow> import_result
     \<Rightarrow> (error + import_result) \<times> db" where
  "import_loop data_versions merge clock k [] d r = (Inr r, d)"
| "import_loop data_versions merge clock k (prompt # rest) d r =
     (case import_prompt data_versions merge (clock k) prompt d r of
        (Inl e, d1) \<Rightarrow> (Inl e, d1)
      | (Inr r1, d1) \<Rightarrow> import_loop data_versions merge clock (k + 1) rest d1 r1)"

definition importData ::
  "(nat \<Rightarrow> int) \<Rightarrow> import_data \<Rightarrow> bool \<Rightarrow> db \<Rightarrow> (error + import_result) \<times> db" where
  "importData clock data merge d =
     (case (d_prompts data, d_versions data) of
        (Some data_prompts, Some data_versions) \<Rightarrow>
          import_loop data_versions merge clock 0 data_prompts d
            \<lparr>imported = 0, skipped = 0, merged = 0\<rparr>
      | _ \<Rightarrow> (Inl InvalidFormat, d))"


subsection \<open>Relations between two states of the database\<close>



subsection \<open>Sample data\<close>

text \<open>
  A small database for concrete runs: the prompt \<open>p1\<close> with its first version, whose
  content is \<open>A\<close>, and a second prompt without versions.
\<close>

definition sample_prompt :: prompt where
  "sample_prompt = \<lparr>p_id = ''p1'', p_title = ''Greeting'', p_description = [], p_tags = [],
                     p_createdAt = 10, p_updatedAt = 10, p_archived = False\<rparr>"

definition other_prompt :: prompt where
  "other_prompt = \<lparr>p_id = ''p2'', p_title = ''Summary'', p_description = [], p_tags = [],
                    p_createdAt = 12, p_updatedAt = 12, p_archived = False\<rparr>"

definition sample_version :: version where
  "sample_version = \<lparr>v_id = ''a1'', v_promptId = ''p1'', v_version = ''v1'',
                      v_content = ''A'', v_notes = [], v_createdAt = 10, v_updatedAt = 10\<rparr>"

definition later_version :: version where
  "later_version = \<lparr>v_id = ''a0'', v_promptId = ''p1'', v_version = ''v2'',
                     v_content = ''B'', v_notes = [], v_createdAt = 15, v_updatedAt = 15\<rparr>"

definition sample_db :: db where
  "sample_db = \<lparr>prompts = [sample_prompt, other_prompt], versions = [sample_version]\<rparr>"

text \<open>Nine versions of the prompt \<open>p1\<close>, with the ids \<open>a1\<close> to \<open>a9\<close>.\<close>

definition nine_versions :: "version list" where
  "nine_versions = map (\<lambda>c. sample_version\<lparr>v_id := [CHR ''a'', c]\<rparr>) ''123456789''"

text \<open>
  An import document for the sample database: the prompt \<open>p1\<close> under a new title and a
  prompt \<open>p3\<close> that the database does not have, with the stored version of \<open>p1\<close>, a further
  version of \<open>p1\<close> and a version of \<open>p3\<close>. The second document carries, for the stored
  prompt \<open>p2\<close>, a version whose id \<open>a1\<close> the database holds under the prompt \<open>p1\<close>.
  \<open>merged_db\<close> is the sample database after the first document has been merged into it
  at the clock reading 50.
\<close>

definition new_prompt :: prompt where
  "new_prompt = \<lparr>p_id = ''p3'', p_title = ''Translate'', p_description = [], p_tags = [],
                  p_createdAt = 14, p_updatedAt = 14, p_archived = False\<rparr>"

definition incoming_version :: version where
  "incoming_version = \<lparr>v_id = ''b1'', v_promptId = ''p1'', v_version = ''v2'',
                        v_content = ''B'', v_notes = [], v_createdAt = 16, v_updatedAt = 16\<rparr>"

definition new_prompt_version :: version where
  "new_prompt_version = \<lparr>v_id = ''c1'', v_promptId = ''p3'', v_version = ''v1'',
                          v_content = ''C'', v_notes = [], v_createdAt = 14, v_updatedAt = 14\<rparr>"

definition sample_doc :: import_data where
  "sample_doc = \<lparr>d_prompts = Some [sample_prompt\<lparr>p_title := ''Hello''\<rparr>, new_prompt],
                  d_versions = Some [sample_version, incoming_version, new_prompt_version]\<rparr>"

definition conflicting_doc :: import_data where
  "conflicting_doc = \<lparr>d_prompts = Some [other_prompt\<lparr>p_title := ''Renamed''\<rparr>],
                       d_versions = Some [sample_version\<lparr>v_promptId := ''p2''\<rparr>]\<rparr>"

definition merged_db :: db where
  "merged_db =
     \<lparr>prompts = [sample_prompt\<lparr>p_title := ''Hello'', p_updatedAt := 50\<rparr>, other_prompt,
                 new_prompt],
      versions = [sample_version, incoming_version, new_prompt_version]\<rparr>"


section \<open>Properties of the diff\<close>

text \<open>
  The loop at the indices \<open>i\<close> and \<open>j\<close> has emitted \<open>result\<close> and goes on as the walk on the
  lines from \<open>i\<close> and from \<open>j\<close> on.
\<close>

lemma computeDiff_loop_walk:
  "computeDiff_loop oldLines newLines i j result =
     result @ greedy_walk (drop i oldLines) (drop j newLines)"
proof (induction oldLines newLines i j result rule: computeDiff_loop.induct)
  case (1 oldLines newLines i j result)
  show ?case
  proof (cases "i < length oldLines")
    case iin: True
    then have dO: "drop i oldLines = oldLines ! i # drop (Suc i) oldLines"
      by (simp add: Cons_nth_drop_Suc)
    show ?thesis
    proof (cases "j < length newLines")
      case jin: True
      then have dN: "drop j newLines = newLines ! j # drop (Suc j) newLines"
        by (simp add: Cons_nth_drop_Suc)
      have lO: "lineAt (drop (Suc i) oldLines) 0 = lineAt oldLines (i + 1)"
        by (auto simp: lineAt_def)
      have lN: "lineAt (drop (Suc j) newLines) 0 = lineAt newLines (j + 1)"
        by (auto simp: lineAt_def)
      show ?thesis
        using iin jin "1.IH"(3-6)
        apply (subst computeDiff_loop.simps)
        apply (simp only: dO dN greedy_walk.simps lO lN Let_def)
        apply (auto simp: dO dN)
        done
    next
      case jout: False
      then have dN: "drop j newLines = []" by simp
      show ?thesis
        using iin jout "1.IH"(2)
        apply (subst computeDiff_loop.simps)
        apply (simp add: dO dN)
        done
    qed
  next
    case iout: False
    then have dO: "drop i oldLines = []" by simp
    show ?thesis
    proof (cases "j < length newLines")
      case jin: True
      then have dN: "drop j newLines = newLines ! j # drop (Suc j) newLines"
        by (simp add: Cons_nth_drop_Suc)
      show ?thesis
        using iout jin "1.IH"(1)
        apply (subst computeDiff_loop.simps)
        apply (simp add: dO dN)
        done
    next
      case jout: False
      then show ?thesis using iout
        by (subst computeDiff_loop.simps) simp
    qed
  qed
qed

lemma computeDiff_walk: "computeDiff oldLines newLines = greedy_walk oldLines newLines"
  by (simp add: computeDiff_def computeDiff_loop_walk)

lemma greedy_walk_same:
  "greedy_walk ls ls = map (\<lambda>l. \<lparr>dl_type = unchanged, dl_content = l\<rparr>) ls"
  by (induction ls) simp_all

lemma greedy_walk_old:
  "map dl_content (filter (\<lambda>d. dl_type d = unchanged \<or> dl_type d = removed)
     (greedy_walk xs ys)) = xs"
  by (induction xs ys rule: greedy_walk.induct) simp_all

lemma greedy_walk_new:
  "map dl_content (filter (\<lambda>d. dl_type d = unchanged \<or> dl_type d = added)
     (greedy_walk xs ys)) = ys"
  by (induction xs ys rule: greedy_walk.induct) simp_all

text \<open>
  C8, as amended. computeDiff is the greedy single-pass walk \<open>greedy_walk\<close>: equal
  current lines are emitted as unchanged and both sides advance; otherwise, when
  \<open>old[i+1] = new[j]\<close> and \<open>new[j+1] \<noteq> old[i]\<close> the old line is emitted as removed and only
  \<open>i\<close> advances; when \<open>new[j+1] = old[i]\<close> and \<open>old[i+1] \<noteq> new[j]\<close> the new line is emitted
  as added and only \<open>j\<close> advances; when neither lookahead matches, or both do, the old
  line is emitted as removed, the new line as added, and both sides advance; when one side
  is exhausted the remaining lines of the other are emitted as additions or removals.
\<close>

theorem computeDiff_greedy_lookahead:
  "computeDiff oldLines newLines = greedy_walk oldLines newLines"
  by (simp add: computeDiff_def computeDiff_loop_walk)

theorem computeDiff_greedy_lookahead_witness:
  "computeDiff [''a'', ''x'', ''b''] [''a'', ''b'', ''c''] =
     [\<lparr>dl_type = unchanged, dl_content = ''a''\<rparr>, \<lparr>dl_type = removed, dl_content = ''x''\<rparr>,
      \<lparr>dl_type = unchanged, dl_content = ''b''\<rparr>, \<lparr>dl_type = added, dl_content = ''c''\<rparr>]"
  using computeDiff_greedy_lookahead [of "[''a'', ''x'', ''b'']" "[''a'', ''b'', ''c'']"]
  by (simp add: lineAt_def)

text \<open>
  C8, as stated, fails where both lookaheads match: on the lines \<open>a, b\<close> against \<open>b, a\<close>
  the walk of the specification removes \<open>a\<close> and advances the old side only, while
  computeDiff emits \<open>a\<close> as removed and \<open>b\<close> as added and advances both sides.
\<close>

theorem computeDiff_both_lookaheads_counterexample:
  "computeDiff [''a'', ''b''] [''b'', ''a''] =
     [\<lparr>dl_type = removed, dl_content = ''a''\<rparr>, \<lparr>dl_type = added, dl_content = ''b''\<rparr>,
      \<lparr>dl_type = removed, dl_content = ''b''\<rparr>, \<lparr>dl_type = added, dl_content = ''a''\<rparr>]
   \<and> spec_walk [''a'', ''b''] [''b'', ''a''] =
     [\<lparr>dl_type = removed, dl_content = ''a''\<rparr>, \<lparr>dl_type = unchanged, dl_content = ''b''\<rparr>,
      \<lparr>dl_type = added, dl_content = ''a''\<rparr>]
   \<and> computeDiff [''a'', ''b''] [''b'', ''a''] \<noteq> spec_walk [''a'', ''b''] [''b'', ''a'']"
  by (simp add: computeDiff_walk lineAt_def)

text \<open>
  C9. The diff of a text with itself consists of unchanged entries only, and their lines
  are the lines of the text in order; this holds for any array of lines, and so for the
  lines of any text.
\<close>

theorem diff_same_text_unchanged:
  "computeDiff ls ls = map (\<lambda>l. \<lparr>dl_type = unchanged, dl_content = l\<rparr>) ls
   \<and> diff_texts X X = map (\<lambda>l. \<lparr>dl_type = unchanged, dl_content = l\<rparr>) (split_newline X)"
  by (simp add: diff_texts_def computeDiff_walk greedy_walk_same)

theorem diff_same_text_unchanged_witness:
  "diff_texts ''ab\<newline>c'' ''ab\<newline>c'' =
     [\<lparr>dl_type = unchanged, dl_content = ''ab''\<rparr>, \<lparr>dl_type = unchanged, dl_content = ''c''\<rparr>]"
  using diff_same_text_unchanged [of "[]" "''ab\<newline>c''"] by simp

text \<open>
  C10. The diff conserves both inputs: the entries that are unchanged or removed carry
  the old lines in their order, and the entries that are unchanged or added carry the new
  lines in their order.
\<close>

theorem computeDiff_conserves_lines:
  "map dl_content (filter (\<lambda>d. dl_type d = unchanged \<or> dl_type d = removed)
       (computeDiff oldLines newLines)) = oldLines
   \<and> map dl_content (filter (\<lambda>d. dl_type d = unchanged \<or> dl_type d = added)
       (computeDiff oldLines newLines)) = newLines"
  by (simp add: computeDiff_walk greedy_walk_old greedy_walk_new)

theorem computeDiff_conserves_lines_witness:
  "map dl_content (filter (\<lambda>d. dl_type d = unchanged \<or> dl_type d = removed)
       (computeDiff [''a'', ''b''] [''b'', ''a''])) = [''a'', ''b'']
   \<and> map dl_content (filter (\<lambda>d. dl_type d = unchanged \<or> dl_type d = added)
       (computeDiff [''a'', ''b''] [''b'', ''a''])) = [''b'', ''a'']"
  using computeDiff_conserves_lines [of "[''a'', ''b'']" "[''b'', ''a'']"] by simp


section \<open>Properties of the database layer\<close>

subsection \<open>Reads and single writes\<close>

lemma where_promptId_filter:
  "where_promptId P d = sort_key v_id (filter (\<lambda>v. v_promptId v = P) (versions d))"
  by (simp add: where_promptId_def filter_sort)

lemma length_where_promptId:
  "length (where_promptId P d) = length (filter (\<lambda>v. v_promptId v = P) (versions d))"
  by (simp add: where_promptId_filter)

lemma mset_getVersionsByPrompt:
  "mset (getVersionsByPrompt P d) = mset (filter (\<lambda>v. v_promptId v = P) (versions d))"
  by (simp add: getVersionsByPrompt_def reverse_sortBy_createdAt_def where_promptId_filter)


lemma sorted_getVersionsByPrompt:
  "sorted_wrt (\<lambda>a b. v_createdAt a \<ge> v_createdAt b) (getVersionsByPrompt P d)"
proof -
  have "sorted (map (\<lambda>v. - v_createdAt v) (getVersionsByPrompt P d))"
    by (simp add: getVersionsByPrompt_def reverse_sortBy_createdAt_def)
  then show ?thesis
    by (simp add: sorted_map)
qed

lemma p_id_apply_changes [simp]: "p_id (apply_changes c p) = p_id p"
  by (simp add: apply_changes_def)

lemma touch_changes:
  "apply_changes (no_changes\<lparr>c_updatedAt := Some t\<rparr>) p = p\<lparr>p_updatedAt := t\<rparr>"
  by (simp add: apply_changes_def no_changes_def)

lemma find_update_by_key:
  "find (\<lambda>p. p_id p = k) (map (\<lambda>p. if p_id p = k' then apply_changes c p else p) ps) =
     map_option (\<lambda>p. if k = k' then apply_changes c p else p) (find (\<lambda>p. p_id p = k) ps)"
  by (induction ps) auto

lemma prompts_get_update:
  "prompts_get k (prompts_update_at k' c d) =
     map_option (\<lambda>p. if k = k' then apply_changes c p else p) (prompts_get k d)"
  by (simp add: prompts_get_def prompts_update_at_def find_update_by_key)

lemma prompts_get_versions_update [simp]:
  "prompts_get k (d\<lparr>versions := vs\<rparr>) = prompts_get k d"
  by (simp add: prompts_get_def)

lemma versions_prompts_update_at [simp]: "versions (prompts_update_at k c d) = versions d"
  by (simp add: prompts_update_at_def)

lemma find_distinct_key:
  "distinct (map f xs) \<Longrightarrow> x \<in> set xs \<Longrightarrow> find (\<lambda>y. f y = f x) xs = Some x"
  by (induction xs) (auto simp: image_iff)

lemma find_absent_key:
  "k \<notin> set (map f xs) \<Longrightarrow> find (\<lambda>y. f y = k) xs = None"
  by (induction xs) auto

lemma find_append_fresh:
  "find (\<lambda>y. f y = k) xs = Some x \<Longrightarrow> find (\<lambda>y. f y = k) (xs @ ys) = Some x"
  by (induction xs) (auto split: if_splits)

lemma map_update_absent:
  "k \<notin> set (map p_id ps) \<Longrightarrow> map (\<lambda>p. if p_id p = k then g p else p) ps = ps"
  by (induction ps) auto

lemma prompts_get_None: "prompts_get k d = None \<longleftrightarrow> k \<notin> set (map p_id (prompts d))"
  by (auto simp: prompts_get_def find_None_iff)

lemma updatePrompt_absent:
  "prompts_get k d = None \<Longrightarrow> updatePrompt now k updates d = (Inr (), d)"
  by (simp add: updatePrompt_def prompts_update_at_def map_update_absent prompts_get_None)

lemma updatePrompt_present:
  "prompts_get k d = Some p \<Longrightarrow>
     \<exists>d'. updatePrompt now k updates d = (Inr (), d')
       \<and> prompts_get k d' = Some (apply_changes (updates\<lparr>c_updatedAt := Some now\<rparr>) p)
       \<and> p_updatedAt (apply_changes (updates\<lparr>c_updatedAt := Some now\<rparr>) p) = now"
  by (simp add: updatePrompt_def prompts_get_update apply_changes_def)

text \<open>
  C3. getVersionsByPrompt returns exactly the stored versions of the prompt (each as often
  as it is stored, which is once), in descending order of \<open>createdAt\<close>, and getLatestVersion
  is the first element of that array, or nothing when the array is empty.
\<close>

theorem getVersionsByPrompt_descending:
  "mset (getVersionsByPrompt P d) = mset (filter (\<lambda>v. v_promptId v = P) (versions d))
   \<and> sorted_wrt (\<lambda>a b. v_createdAt a \<ge> v_createdAt b) (getVersionsByPrompt P d)
   \<and> getLatestVersion P d =
       (case getVersionsByPrompt P d of [] \<Rightarrow> None | first # rest \<Rightarrow> Some first)"
  by (simp add: mset_getVersionsByPrompt sorted_getVersionsByPrompt getLatestVersion_def
      Let_def split: list.split)

theorem getVersionsByPrompt_descending_witness:
  "getVersionsByPrompt ''p1'' (sample_db\<lparr>versions := [sample_version, later_version]\<rparr>) =
     [later_version, sample_version]
   \<and> getLatestVersion ''p1'' (sample_db\<lparr>versions := [sample_version, later_version]\<rparr>) =
     Some later_version
   \<and> getLatestVersion ''p2'' sample_db = None"
  using getVersionsByPrompt_descending
          [of "''p1''" "sample_db\<lparr>versions := [sample_version, later_version]\<rparr>"]
        getVersionsByPrompt_descending [of "''p2''" sample_db]
  by (simp add: getVersionsByPrompt_def reverse_sortBy_createdAt_def where_promptId_def
      sample_db_def sample_version_def later_version_def)

lemma createVersion_cases:
  "createVersion uuid now now' P content notes d =
     (if uuid \<in> set (map v_id (versions d)) then (Inl ConstraintError, d)
      else (Inr uuid,
            prompts_update_at P (no_changes\<lparr>c_updatedAt := Some now'\<rparr>)
              (d\<lparr>versions := versions d @
                 [\<lparr>v_id = uuid, v_promptId = P,
                   v_version = ''v'' @ decimal
                     (length (filter (\<lambda>v. v_promptId v = P) (versions d)) + 1),
                   v_content = content, v_notes = notes,
                   v_createdAt = now, v_updatedAt = now\<rparr>]\<rparr>)))"
  by (simp add: createVersion_def Let_def length_where_promptId versions_add_def
      updatePrompt_def)

lemma digit_cases: "k < 10 \<Longrightarrow> k \<in> {0, 1, 2, 3, 4, 5, 6, 7, 8, 9::nat}"
  by auto

lemma digit_value_nth: "k < 10 \<Longrightarrow> digit_value (''0123456789'' ! k) = k"
  using digit_cases[of k] by (auto simp: digit_value_def)

lemma digit_nth_in: "k < 10 \<Longrightarrow> ''0123456789'' ! k \<in> set ''0123456789''"
  using digit_cases[of k] by auto

lemma digit_nth_zero: "k < 10 \<Longrightarrow> ''0123456789'' ! k = CHR ''0'' \<Longrightarrow> k = 0"
  using digit_cases[of k] by auto

lemma decimal_value_snoc:
  "decimal_value (s @ [c]) = 10 * decimal_value s + digit_value c"
  by (simp add: decimal_value_def)

lemma decimal_value_decimal: "decimal_value (decimal n) = n"
proof (induction n rule: decimal.induct)
  case (1 n)
  show ?case
  proof (cases "n < 10")
    case True
    then show ?thesis
      by (subst decimal.simps) (simp add: decimal_value_def digit_value_nth)
  next
    case False
    with 1 have "decimal_value (decimal (n div 10)) = n div 10" by simp
    with False show ?thesis
      by (subst decimal.simps) (simp add: decimal_value_snoc digit_value_nth)
  qed
qed

lemma decimal_digits: "set (decimal n) \<subseteq> set ''0123456789''"
proof (induction n rule: decimal.induct)
  case (1 n)
  show ?case
  proof (cases "n < 10")
    case True
    then show ?thesis
      using digit_nth_in[of n] by (subst decimal.simps) simp
  next
    case False
    with 1 have "set (decimal (n div 10)) \<subseteq> set ''0123456789''" by simp
    with False show ?thesis
      using digit_nth_in[of "n mod 10"] by (subst decimal.simps) simp
  qed
qed

lemma decimal_nonempty: "decimal n \<noteq> []"
  by (subst decimal.simps) simp

lemma decimal_no_leading_zero: "0 < n \<Longrightarrow> hd (decimal n) \<noteq> CHR ''0''"
proof (induction n rule: decimal.induct)
  case (1 n)
  show ?case
  proof (cases "n < 10")
    case True
    with "1.prems" show ?thesis
      using digit_nth_zero[of n] by (subst decimal.simps) auto
  next
    case False
    then have "0 < n div 10" by simp
    with 1 False have "hd (decimal (n div 10)) \<noteq> CHR ''0''" by simp
    with False show ?thesis
      by (subst decimal.simps) (simp add: decimal_nonempty)
  qed
qed

text \<open>
  C1, as amended. When exactly \<open>N\<close> stored versions have the promptId \<open>P\<close>, createVersion
  stores a new version with the label \<open>v(N+1)\<close>, the given content and notes, and then sets
  the \<open>updatedAt\<close> of the parent prompt to the reading of the clock taken by an update that
  changes nothing else, whatever the content and whatever value was stored; every other
  prompt stays as it is. The label is the letter \<open>v\<close> followed by the decimal numeral of
  \<open>N + 1\<close>: digits only, no leading zero, and read back as a number it is \<open>N + 1\<close>. This
  is the run in which the identifier drawn for the new version is not yet a key of the
  versions table; on a key that is in the table the write is rejected and nothing is
  stored.
\<close>

theorem createVersion_next_label:
  assumes count: "length (filter (\<lambda>v. v_promptId v = P) (versions d)) = N"
  shows "(uuid \<notin> set (map v_id (versions d)) \<longrightarrow>
            (\<exists>d'. createVersion uuid now now' P content notes d = (Inr uuid, d')
               \<and> versions d' = versions d @
                    [\<lparr>v_id = uuid, v_promptId = P, v_version = ''v'' @ decimal (N + 1),
                      v_content = content, v_notes = notes,
                      v_createdAt = now, v_updatedAt = now\<rparr>]
               \<and> prompts_get P d' =
                    map_option (\<lambda>p. p\<lparr>p_updatedAt := now'\<rparr>) (prompts_get P d)
               \<and> (\<forall>k. k \<noteq> P \<longrightarrow> prompts_get k d' = prompts_get k d)))
         \<and> (uuid \<in> set (map v_id (versions d)) \<longrightarrow>
              createVersion uuid now now' P content notes d = (Inl ConstraintError, d))
         \<and> decimal_value (decimal (N + 1)) = N + 1
         \<and> set (decimal (N + 1)) \<subseteq> set ''0123456789''
         \<and> decimal (N + 1) \<noteq> []
         \<and> hd (decimal (N + 1)) \<noteq> CHR ''0''"
proof (intro conjI impI)
  assume fresh: "uuid \<notin> set (map v_id (versions d))"
  let ?v = "\<lparr>v_id = uuid, v_promptId = P, v_version = ''v'' @ decimal (N + 1),
            v_content = content, v_notes = notes, v_createdAt = now, v_updatedAt = now\<rparr>"
  let ?d' = "prompts_update_at P (no_changes\<lparr>c_updatedAt := Some now'\<rparr>)
               (d\<lparr>versions := versions d @ [?v]\<rparr>)"
  have run: "createVersion uuid now now' P content notes d = (Inr uuid, ?d')"
    using fresh count by (simp add: createVersion_cases)
  have "prompts_get P ?d' = map_option (\<lambda>p. p\<lparr>p_updatedAt := now'\<rparr>) (prompts_get P d)"
    by (simp add: prompts_get_update touch_changes)
  moreover have "\<forall>k. k \<noteq> P \<longrightarrow> prompts_get k ?d' = prompts_get k d"
    by (simp add: prompts_get_update option.map_ident)
  moreover have "versions ?d' = versions d @ [?v]"
    by simp
  ultimately show "\<exists>d'. createVersion uuid now now' P content notes d = (Inr uuid, d')
               \<and> versions d' = versions d @ [?v]
               \<and> prompts_get P d' =
                    map_option (\<lambda>p. p\<lparr>p_updatedAt := now'\<rparr>) (prompts_get P d)
               \<and> (\<forall>k. k \<noteq> P \<longrightarrow> prompts_get k d' = prompts_get k d)"
    using run by blast
next
  assume "uuid \<in> set (map v_id (versions d))"
  then show "createVersion uuid now now' P content notes d = (Inl ConstraintError, d)"
    by (simp add: createVersion_cases)
next
  show "decimal_value (decimal (N + 1)) = N + 1"
    by (rule decimal_value_decimal)
  show "set (decimal (N + 1)) \<subseteq> set ''0123456789''"
    by (rule decimal_digits)
  show "decimal (N + 1) \<noteq> []"
    by (rule decimal_nonempty)
  show "hd (decimal (N + 1)) \<noteq> CHR ''0''"
    by (rule decimal_no_leading_zero) simp
qed

theorem createVersion_next_label_witness:
  "length (filter (\<lambda>v. v_promptId v = ''p1'') (versions sample_db)) = 1
   \<and> ''a2'' \<notin> set (map v_id (versions sample_db))
   \<and> createVersion ''a2'' 20 21 ''p1'' ''A'' [] sample_db =
       (Inr ''a2'',
        \<lparr>prompts = [sample_prompt\<lparr>p_updatedAt := 21\<rparr>, other_prompt],
         versions = [sample_version,
           \<lparr>v_id = ''a2'', v_promptId = ''p1'', v_version = ''v2'', v_content = ''A'',
            v_notes = [], v_createdAt = 20, v_updatedAt = 20\<rparr>]\<rparr>)
   \<and> ''a1'' \<in> set (map v_id (versions sample_db))
   \<and> createVersion ''a1'' 20 21 ''p1'' ''A'' [] sample_db = (Inl ConstraintError, sample_db)
   \<and> length (filter (\<lambda>v. v_promptId v = ''p1'')
        (versions (sample_db\<lparr>versions := nine_versions\<rparr>))) = 9
   \<and> ''b1'' \<notin> set (map v_id (versions (sample_db\<lparr>versions := nine_versions\<rparr>)))
   \<and> createVersion ''b1'' 20 21 ''p1'' ''A'' [] (sample_db\<lparr>versions := nine_versions\<rparr>) =
       (Inr ''b1'',
        \<lparr>prompts = [sample_prompt\<lparr>p_updatedAt := 21\<rparr>, other_prompt],
         versions = nine_versions @
           [\<lparr>v_id = ''b1'', v_promptId = ''p1'', v_version = ''v10'', v_content = ''A'',
             v_notes = [], v_createdAt = 20, v_updatedAt = 20\<rparr>]\<rparr>)
   \<and> decimal_value ''10'' = 10"
proof -
  have count: "length (filter (\<lambda>v. v_promptId v = ''p1'') (versions sample_db)) = 1"
    by (simp add: sample_db_def sample_version_def)
  have count9: "length (filter (\<lambda>v. v_promptId v = ''p1'')
        (versions (sample_db\<lparr>versions := nine_versions\<rparr>))) = 9"
    by (simp add: nine_versions_def sample_version_def)
  have ten: "decimal (9 + 1) = ''10''"
    by (simp add: decimal.simps)
  have nine: "createVersion ''b1'' 20 21 ''p1'' ''A'' []
        (sample_db\<lparr>versions := nine_versions\<rparr>) =
       (Inr ''b1'',
        \<lparr>prompts = [sample_prompt\<lparr>p_updatedAt := 21\<rparr>, other_prompt],
         versions = nine_versions @
           [\<lparr>v_id = ''b1'', v_promptId = ''p1'', v_version = ''v10'', v_content = ''A'',
             v_notes = [], v_createdAt = 20, v_updatedAt = 20\<rparr>]\<rparr>)"
    by (simp add: createVersion_cases prompts_update_at_def apply_changes_def no_changes_def
        decimal.simps nine_versions_def sample_db_def sample_version_def sample_prompt_def
        other_prompt_def)
  have fresh9: "''b1'' \<notin> set (map v_id (versions (sample_db\<lparr>versions := nine_versions\<rparr>)))"
    by (simp add: nine_versions_def sample_version_def)
  from createVersion_next_label [OF count9, of "''b1''" 20 21 "''A''" "[]"] ten
  have value10: "decimal_value ''10'' = 10"
    by simp
  from createVersion_next_label [OF count, of "''a2''" 20 21 "''A''" "[]"]
       createVersion_next_label [OF count, of "''a1''" 20 21 "''A''" "[]"]
  have small: "''a2'' \<notin> set (map v_id (versions sample_db))
   \<and> createVersion ''a2'' 20 21 ''p1'' ''A'' [] sample_db =
       (Inr ''a2'',
        \<lparr>prompts = [sample_prompt\<lparr>p_updatedAt := 21\<rparr>, other_prompt],
         versions = [sample_version,
           \<lparr>v_id = ''a2'', v_promptId = ''p1'', v_version = ''v2'', v_content = ''A'',
            v_notes = [], v_createdAt = 20, v_updatedAt = 20\<rparr>]\<rparr>)
   \<and> ''a1'' \<in> set (map v_id (versions sample_db))
   \<and> createVersion ''a1'' 20 21 ''p1'' ''A'' [] sample_db = (Inl ConstraintError, sample_db)"
    by (simp add: createVersion_def where_promptId_def versions_add_def updatePrompt_def
        prompts_update_at_def apply_changes_def no_changes_def decimal.simps
        sample_db_def sample_version_def sample_prompt_def other_prompt_def)
  from count small count9 fresh9 nine value10 show ?thesis by blast
qed

text \<open>
  C1, as stated, fails where the clock has not moved past the stored value: in the sample
  database the prompt \<open>p1\<close> has the \<open>updatedAt\<close> 10; a createVersion whose update reads the
  clock at 10 leaves it at 10, and one that reads 5 sets it back to 5.
\<close>

theorem createVersion_same_clock_counterexample:
  "map_option p_updatedAt (prompts_get ''p1'' sample_db) = Some 10
   \<and> fst (createVersion ''a2'' 10 10 ''p1'' ''A'' [] sample_db) = Inr ''a2''
   \<and> map_option p_updatedAt
        (prompts_get ''p1'' (snd (createVersion ''a2'' 10 10 ''p1'' ''A'' [] sample_db))) =
       Some 10
   \<and> fst (createVersion ''a2'' 5 5 ''p1'' ''A'' [] sample_db) = Inr ''a2''
   \<and> map_option p_updatedAt
        (prompts_get ''p1'' (snd (createVersion ''a2'' 5 5 ''p1'' ''A'' [] sample_db))) =
       Some 5"
  by (simp add: createVersion_cases prompts_get_def prompts_update_at_def apply_changes_def
      no_changes_def sample_db_def sample_version_def sample_prompt_def other_prompt_def)

text \<open>
  C2. For a stored version \<open>v\<close>, rollbackToVersion never changes or removes \<open>v\<close>; an
  identifier it returns differs from the id of \<open>v\<close> and names a new version, appended on
  the same prompt with the content of \<open>v\<close> and the notes "Rollback to" followed by the
  label of \<open>v\<close>; and it does return one whenever the identifier drawn for the new version
  is not yet a key of the table. For a version id that is not in the table,
  rollbackToVersion fails with NotFound and the database is unchanged.
\<close>

theorem rollbackToVersion_appends_copy:
  "(distinct (map v_id (versions d)) \<and> v \<in> set (versions d) \<longrightarrow>
      getVersion (v_id v) (snd (rollbackToVersion uuid now now' (v_id v) d)) = Some v
      \<and> (\<forall>newId. fst (rollbackToVersion uuid now now' (v_id v) d) = Inr newId \<longrightarrow>
            newId \<noteq> v_id v
            \<and> versions (snd (rollbackToVersion uuid now now' (v_id v) d)) = versions d @
                 [\<lparr>v_id = newId, v_promptId = v_promptId v,
                   v_version = ''v'' @ decimal
                     (length (filter (\<lambda>w. v_promptId w = v_promptId v) (versions d)) + 1),
                   v_content = v_content v, v_notes = ''Rollback to '' @ v_version v,
                   v_createdAt = now, v_updatedAt = now\<rparr>])
      \<and> (uuid \<notin> set (map v_id (versions d)) \<longrightarrow>
            fst (rollbackToVersion uuid now now' (v_id v) d) = Inr uuid))
   \<and> (versionId \<notin> set (map v_id (versions d)) \<longrightarrow>
        rollbackToVersion uuid now now' versionId d = (Inl NotFound, d))"
proof (intro conjI impI)
  assume h: "distinct (map v_id (versions d)) \<and> v \<in> set (versions d)"
  then have found: "getVersion (v_id v) d = Some v"
    by (simp add: getVersion_def versions_get_def find_distinct_key)
  have run: "rollbackToVersion uuid now now' (v_id v) d =
      createVersion uuid now now' (v_promptId v) (v_content v)
        (''Rollback to '' @ v_version v) d"
    using found by (simp add: rollbackToVersion_def)
  have stored: "v_id v \<in> set (map v_id (versions d))"
    using h by simp
  show "getVersion (v_id v) (snd (rollbackToVersion uuid now now' (v_id v) d)) = Some v"
    using found
    by (simp add: run createVersion_cases getVersion_def versions_get_def find_append_fresh)
  show "\<forall>newId. fst (rollbackToVersion uuid now now' (v_id v) d) = Inr newId \<longrightarrow>
            newId \<noteq> v_id v
            \<and> versions (snd (rollbackToVersion uuid now now' (v_id v) d)) = versions d @
                 [\<lparr>v_id = newId, v_promptId = v_promptId v,
                   v_version = ''v'' @ decimal
                     (length (filter (\<lambda>w. v_promptId w = v_promptId v) (versions d)) + 1),
                   v_content = v_content v, v_notes = ''Rollback to '' @ v_version v,
                   v_createdAt = now, v_updatedAt = now\<rparr>]"
    using stored by (auto simp: run createVersion_cases split: if_splits)
  show "fst (rollbackToVersion uuid now now' (v_id v) d) = Inr uuid"
    if "uuid \<notin> set (map v_id (versions d))"
    using that by (simp add: run createVersion_cases)
next
  assume "versionId \<notin> set (map v_id (versions d))"
  then show "rollbackToVersion uuid now now' versionId d = (Inl NotFound, d)"
    by (simp add: rollbackToVersion_def getVersion_def versions_get_def find_absent_key)
qed

theorem rollbackToVersion_appends_copy_witness:
  "distinct (map v_id (versions sample_db)) \<and> sample_version \<in> set (versions sample_db)
   \<and> ''a3'' \<notin> set (map v_id (versions sample_db))
   \<and> rollbackToVersion ''a3'' 30 31 ''a1'' sample_db =
       (Inr ''a3'',
        \<lparr>prompts = [sample_prompt\<lparr>p_updatedAt := 31\<rparr>, other_prompt],
         versions = [sample_version,
           \<lparr>v_id = ''a3'', v_promptId = ''p1'', v_version = ''v2'', v_content = ''A'',
            v_notes = ''Rollback to v1'', v_createdAt = 30, v_updatedAt = 30\<rparr>]\<rparr>)
   \<and> ''zz'' \<notin> set (map v_id (versions sample_db))
   \<and> rollbackToVersion ''a3'' 30 31 ''zz'' sample_db = (Inl NotFound, sample_db)"
  using rollbackToVersion_appends_copy
          [where d = sample_db and v = sample_version and uuid = "''a3''" and now = 30
             and now' = 31 and versionId = "''zz''"]
  by (simp add: rollbackToVersion_def getVersion_def versions_get_def createVersion_def
      where_promptId_def versions_add_def updatePrompt_def prompts_update_at_def
      apply_changes_def no_changes_def decimal.simps
      sample_db_def sample_version_def sample_prompt_def other_prompt_def)

text \<open>
  C7. On an id that is not in the prompts table, updatePrompt does not fail: the update
  of the storage library finds no record, writes nothing and resolves, so the call returns
  normally with the database unchanged. Here the id \<open>p9\<close> is not in the sample database.
\<close>

theorem updatePrompt_absent_id_resolves:
  "prompts_get ''p9'' sample_db = None
   \<and> updatePrompt 40 ''p9'' (no_changes\<lparr>c_title := Some ''Renamed''\<rparr>) sample_db =
       (Inr (), sample_db)
   \<and> fst (updatePrompt 40 ''p9'' (no_changes\<lparr>c_title := Some ''Renamed''\<rparr>) sample_db) \<noteq>
       Inl NotFound"
  by (simp add: updatePrompt_def prompts_update_at_def prompts_get_def no_changes_def
      sample_db_def sample_prompt_def other_prompt_def)


subsection \<open>Import\<close>

lemmas sample_defs = sample_db_def sample_prompt_def other_prompt_def sample_version_def
  new_prompt_def incoming_version_def new_prompt_version_def sample_doc_def
  conflicting_doc_def merged_db_def

lemmas run_defs = importData_def import_prompt_def prompts_get_def prompts_add_def
  versions_add_def prompts_update_at_def apply_changes_def changes_of_prompt_def
  getVersionsByPrompt_def reverse_sortBy_createdAt_def where_promptId_def

lemma versions_add_Inr:
  "versions_add v d = Inr d1 \<Longrightarrow>
     d1 = d\<lparr>versions := versions d @ [v]\<rparr> \<and> v_id v \<notin> set (map v_id (versions d))"
  by (auto simp: versions_add_def split: if_splits)

lemma versions_add_Inl:
  "versions_add v d = Inl e \<Longrightarrow> e = ConstraintError \<and> v_id v \<in> set (map v_id (versions d))"
  by (auto simp: versions_add_def split: if_splits)

lemma import_new_versions_frame:
  "import_new_versions ex vs d m = (res, d') \<Longrightarrow>
     prompts d' = prompts d
     \<and> (\<exists>new. versions d' = versions d @ new \<and> set new \<subseteq> set vs
          \<and> (\<forall>v\<in>set new. v_id v \<notin> set (map v_id (versions d)))
          \<and> (\<forall>m'. res = Inr m' \<longrightarrow> m' = m + length new))"
proof (induction vs arbitrary: d m)
  case Nil
  then show ?case by auto
next
  case (Cons v vs)
  show ?case
  proof (cases "list_ex (\<lambda>w. v_id w = v_id v) ex")
    case True
    with Cons.prems have "import_new_versions ex vs d m = (res, d')" by simp
    from Cons.IH[OF this] show ?thesis by auto
  next
    case False
    show ?thesis
    proof (cases "versions_add v d")
      case (Inl e)
      with False Cons.prems show ?thesis by auto
    next
      case (Inr d1)
      with False Cons.prems have run: "import_new_versions ex vs d1 (m + 1) = (res, d')" by simp
      from versions_add_Inr[OF Inr] have d1: "d1 = d\<lparr>versions := versions d @ [v]\<rparr>"
        and fresh: "v_id v \<notin> set (map v_id (versions d))" by auto
      from Cons.IH[OF run] obtain new where
        p: "prompts d' = prompts d1" and n: "versions d' = versions d1 @ new"
        and s: "set new \<subseteq> set vs"
        and f: "\<forall>w\<in>set new. v_id w \<notin> set (map v_id (versions d1))"
        and c: "\<forall>m'. res = Inr m' \<longrightarrow> m' = m + 1 + length new" by auto
      have "versions d' = versions d @ (v # new)" using n d1 by simp
      moreover have "set (v # new) \<subseteq> set (v # vs)" using s by auto
      moreover have "\<forall>w\<in>set (v # new). v_id w \<notin> set (map v_id (versions d))"
        using f fresh d1 by auto
      moreover have "\<forall>m'. res = Inr m' \<longrightarrow> m' = m + length (v # new)" using c by auto
      moreover have "prompts d' = prompts d" using p d1 by simp
      ultimately show ?thesis by blast
    qed
  qed
qed

lemma add_all_versions_frame:
  "add_all_versions vs d = (res, d') \<Longrightarrow>
     prompts d' = prompts d
     \<and> (\<exists>new. versions d' = versions d @ new \<and> set new \<subseteq> set vs
          \<and> (\<forall>v\<in>set new. v_id v \<notin> set (map v_id (versions d)))
          \<and> (\<forall>u. res = Inr u \<longrightarrow> new = vs))"
proof (induction vs arbitrary: d)
  case Nil
  then show ?case by auto
next
  case (Cons v vs)
  show ?case
  proof (cases "versions_add v d")
    case (Inl e)
    with Cons.prems show ?thesis by auto
  next
    case (Inr d1)
    with Cons.prems have run: "add_all_versions vs d1 = (res, d')" by simp
    from versions_add_Inr[OF Inr] have d1: "d1 = d\<lparr>versions := versions d @ [v]\<rparr>"
      and fresh: "v_id v \<notin> set (map v_id (versions d))" by auto
    from Cons.IH[OF run] obtain new where
      p: "prompts d' = prompts d1" and n: "versions d' = versions d1 @ new"
      and s: "set new \<subseteq> set vs"
      and f: "\<forall>w\<in>set new. v_id w \<notin> set (map v_id (versions d1))"
      and c: "\<forall>u. res = Inr u \<longrightarrow> new = vs" by auto
    have "versions d' = versions d @ (v # new)" using n d1 by simp
    moreover have "set (v # new) \<subseteq> set (v # vs)" using s by auto
    moreover have "\<forall>w\<in>set (v # new). v_id w \<notin> set (map v_id (versions d))"
      using f fresh d1 by auto
    moreover have "\<forall>u. res = Inr u \<longrightarrow> v # new = v # vs" using c by auto
    moreover have "prompts d' = prompts d" using p d1 by simp
    ultimately show ?thesis by blast
  qed
qed

lemma ids_prompts_update_at [simp]:
  "map p_id (prompts (prompts_update_at k c d)) = map p_id (prompts d)"
  by (simp add: prompts_update_at_def comp_def)




lemma prompts_add_absent:
  "prompts_get (p_id p) d = None \<Longrightarrow> prompts_add p d = Inr (d\<lparr>prompts := prompts d @ [p]\<rparr>)"
  by (simp add: prompts_add_def prompts_get_None)

lemma import_prompt_skip:
  "prompts_get (p_id p) d \<noteq> None \<Longrightarrow>
     import_prompt dvs False now p d r = (Inr (r\<lparr>skipped := skipped r + 1\<rparr>), d)"
  by (simp add: import_prompt_def)

lemma import_prompt_frame:
  assumes "import_prompt dvs mrg now p d r = (res, d')"
  shows "map p_id (prompts d) = take (length (prompts d)) (map p_id (prompts d'))
         \<and> (\<exists>vs. versions d' = versions d @ vs)
         \<and> (\<not> mrg \<longrightarrow> (\<exists>ps. prompts d' = prompts d @ ps))"
proof (cases "prompts_get (p_id p) d")
  case None
  let ?d1 = "d\<lparr>prompts := prompts d @ [p]\<rparr>"
  obtain res2 d2 where a: "add_all_versions (filter (\<lambda>v. v_promptId v = p_id p) dvs) ?d1 = (res2, d2)"
    by (cases "add_all_versions (filter (\<lambda>v. v_promptId v = p_id p) dvs) ?d1") auto
  from add_all_versions_frame[OF a] obtain new where
    "prompts d2 = prompts ?d1" "versions d2 = versions ?d1 @ new" by auto
  moreover from assms None a have "d' = d2"
    by (auto simp: import_prompt_def prompts_add_absent Let_def split: sum.splits)
  ultimately show ?thesis by auto
next
  case (Some e)
  show ?thesis
  proof (cases mrg)
    case False
    with Some assms show ?thesis by (simp add: import_prompt_skip)
  next
    case True
    obtain res1 d1 where a: "import_new_versions (getVersionsByPrompt (p_id p) d)
        (filter (\<lambda>v. v_promptId v = p_id p) dvs) d (merged r) = (res1, d1)"
      by (cases "import_new_versions (getVersionsByPrompt (p_id p) d)
        (filter (\<lambda>v. v_promptId v = p_id p) dvs) d (merged r)") auto
    from import_new_versions_frame[OF a] obtain new where
      n: "prompts d1 = prompts d" "versions d1 = versions d @ new" by auto
    from assms Some True a have
      "d' = d1 \<or> d' = prompts_update_at (p_id p) ((changes_of_prompt p)\<lparr>c_updatedAt := Some now\<rparr>) d1"
      by (auto simp: import_prompt_def Let_def split: sum.splits)
    then show ?thesis using n True
      by (auto simp: take_map[symmetric])
  qed
qed



lemma import_loop_nomerge_frame:
  "import_loop dvs False clock k ps d r = (res, d') \<Longrightarrow>
     \<exists>ps' vs'. prompts d' = prompts d @ ps' \<and> versions d' = versions d @ vs'"
proof (induction ps arbitrary: d r k)
  case Nil
  then show ?case by simp
next
  case (Cons p ps)
  obtain res1 d1 where step: "import_prompt dvs False (clock k) p d r = (res1, d1)"
    by (cases "import_prompt dvs False (clock k) p d r") auto
  from import_prompt_frame[OF step] obtain ps1 vs1 where
    f1: "prompts d1 = prompts d @ ps1" "versions d1 = versions d @ vs1" by auto
  show ?case
  proof (cases res1)
    case (Inl e)
    with Cons.prems step have "d' = d1" by simp
    with f1 show ?thesis by simp
  next
    case (Inr r1)
    with Cons.prems step have "import_loop dvs False clock (k + 1) ps d1 r1 = (res, d')" by simp
    from Cons.IH[OF this] obtain ps2 vs2 where
      "prompts d' = prompts d1 @ ps2" "versions d' = versions d1 @ vs2" by auto
    with f1 show ?thesis by simp
  qed
qed













lemma wf_db_versions_add: "wf_db d \<Longrightarrow> versions_add v d = Inr d1 \<Longrightarrow> wf_db d1"
  by (auto simp: wf_db_def versions_add_def split: if_splits)

lemma wf_db_prompts_add: "wf_db d \<Longrightarrow> prompts_add p d = Inr d1 \<Longrightarrow> wf_db d1"
  by (auto simp: wf_db_def prompts_add_def split: if_splits)

lemma wf_db_prompts_update_at: "wf_db d \<Longrightarrow> wf_db (prompts_update_at k c d)"
  by (simp add: wf_db_def)

lemma wf_db_createVersion:
  "wf_db d \<Longrightarrow> wf_db (snd (createVersion uuid now now' P content notes d))"
  by (simp add: createVersion_cases wf_db_def)

lemma wf_db_import_new_versions:
  "wf_db d \<Longrightarrow> wf_db (snd (import_new_versions ex vs d m))"
proof (induction vs arbitrary: d m)
  case Nil
  then show ?case by simp
next
  case (Cons v vs)
  then show ?case
    by (auto simp: Let_def split: sum.splits dest: wf_db_versions_add)
qed

lemma wf_db_add_all_versions:
  "wf_db d \<Longrightarrow> wf_db (snd (add_all_versions vs d))"
proof (induction vs arbitrary: d)
  case Nil
  then show ?case by simp
next
  case (Cons v vs)
  then show ?case
    by (auto split: sum.splits dest: wf_db_versions_add)
qed

lemma wf_db_import_prompt:
  assumes "wf_db d"
  shows "wf_db (snd (import_prompt dvs mrg now p d r))"
proof -
  have a: "wf_db (snd (import_new_versions (getVersionsByPrompt (p_id p) d)
      (filter (\<lambda>v. v_promptId v = p_id p) dvs) d (merged r)))"
    using assms by (rule wf_db_import_new_versions)
  have b: "wf_db (snd (add_all_versions (filter (\<lambda>v. v_promptId v = p_id p) dvs) d1))"
    if "prompts_add p d = Inr d1" for d1
    using wf_db_prompts_add[OF assms that] by (rule wf_db_add_all_versions)
  show ?thesis
    using assms a b
    by (auto simp: import_prompt_def Let_def wf_db_prompts_update_at
        split: sum.splits prod.splits)
qed

lemma wf_db_import_loop:
  "wf_db d \<Longrightarrow> wf_db (snd (import_loop dvs mrg clock k ps d r))"
proof (induction ps arbitrary: d r k)
  case Nil
  then show ?case by simp
next
  case (Cons p ps)
  from Cons.prems have "wf_db (snd (import_prompt dvs mrg (clock k) p d r))"
    by (rule wf_db_import_prompt)
  with Cons.IH show ?case
    by (auto split: sum.splits prod.splits)
qed

lemma wf_db_importData: "wf_db d \<Longrightarrow> wf_db (snd (importData clock data mrg d))"
  by (auto simp: importData_def wf_db_import_loop split: option.splits)

lemma import_prompt_new_nomerge:
  assumes new: "prompts_get (p_id p) d = None"
    and run: "import_prompt dvs False now p d r = (Inr r', d')"
  shows "prompts d' = prompts d @ [p] \<and> r' = r\<lparr>imported := imported r + 1\<rparr>"
proof -
  let ?d1 = "d\<lparr>prompts := prompts d @ [p]\<rparr>"
  let ?vs = "filter (\<lambda>v. v_promptId v = p_id p) dvs"
  obtain res2 d2 where a: "add_all_versions ?vs ?d1 = (res2, d2)"
    by (cases "add_all_versions ?vs ?d1") auto
  from run new a have "d' = d2" and "r' = r\<lparr>imported := imported r + 1\<rparr>"
    by (auto simp: import_prompt_def prompts_add_absent Let_def split: sum.splits)
  moreover from add_all_versions_frame[OF a] have "prompts d2 = prompts d @ [p]" by simp
  ultimately show ?thesis by simp
qed

lemma import_loop_nomerge_counts:
  "distinct (map p_id ps) \<Longrightarrow>
   import_loop dvs False clock k ps d r = (Inr r', d') \<Longrightarrow>
     skipped r' = skipped r + length (filter (\<lambda>p. p_id p \<in> set (map p_id (prompts d))) ps)
     \<and> imported r' = imported r + length (filter (\<lambda>p. p_id p \<notin> set (map p_id (prompts d))) ps)
     \<and> merged r' = merged r"
proof (induction ps arbitrary: d r k)
  case Nil
  then show ?case by simp
next
  case (Cons p ps)
  from Cons.prems(1) have dist: "distinct (map p_id ps)" and notin: "p_id p \<notin> set (map p_id ps)"
    by auto
  show ?case
  proof (cases "prompts_get (p_id p) d")
    case None
    obtain res1 d1 where step: "import_prompt dvs False (clock k) p d r = (res1, d1)"
      by (cases "import_prompt dvs False (clock k) p d r") auto
    with Cons.prems(2) obtain r1 where r1: "res1 = Inr r1"
      and rest: "import_loop dvs False clock (k + 1) ps d1 r1 = (Inr r', d')"
      by (cases res1) auto
    from import_prompt_new_nomerge[OF None step[unfolded r1]] have
      d1: "prompts d1 = prompts d @ [p]" and rr: "r1 = r\<lparr>imported := imported r + 1\<rparr>" by auto
    from notin have ne: "\<And>q. q \<in> set ps \<Longrightarrow> p_id q \<noteq> p_id p"
      by (metis imageI set_map)
    have same: "filter (\<lambda>q. p_id q \<in> set (map p_id (prompts d1))) ps
                  = filter (\<lambda>q. p_id q \<in> set (map p_id (prompts d))) ps"
      using ne d1 by (intro filter_cong) auto
    have same': "filter (\<lambda>q. p_id q \<notin> set (map p_id (prompts d1))) ps
                  = filter (\<lambda>q. p_id q \<notin> set (map p_id (prompts d))) ps"
      using ne d1 by (intro filter_cong) auto
    from None have "p_id p \<notin> set (map p_id (prompts d))"
      by (simp add: prompts_get_None)
    with Cons.IH[OF dist rest] same same' rr show ?thesis by simp
  next
    case (Some e)
    then have ex: "prompts_get (p_id p) d \<noteq> None" by simp
    with Cons.prems(2) have rest:
      "import_loop dvs False clock (k + 1) ps d (r\<lparr>skipped := skipped r + 1\<rparr>) = (Inr r', d')"
      by (simp add: import_prompt_skip)
    from ex have "p_id p \<in> set (map p_id (prompts d))"
      using prompts_get_None[of "p_id p" d] by simp
    with Cons.IH[OF dist rest] show ?thesis by simp
  qed
qed

text \<open>
  C5. With \<open>merge = false\<close>, an incoming prompt whose id is in the prompts table is
  skipped: the step of the loop leaves the database as it is and adds one to \<open>skipped\<close>
  and nothing to \<open>imported\<close> or \<open>merged\<close>; a document with a single such prompt returns
  \<open>skipped = 1\<close>, \<open>imported = 0\<close>, \<open>merged = 0\<close> and the unchanged database; for any
  document, however the run ends, every record that was stored before the run is still
  there unchanged (the tables only gain records at their end); and when the incoming
  prompts have different ids, a run that returns has counted in \<open>skipped\<close> exactly the
  incoming prompts whose ids were stored before the run, in \<open>imported\<close> the others, and
  nothing in \<open>merged\<close>.
\<close>

theorem importData_skip_existing:
  "(prompts_get (p_id prompt) d \<noteq> None \<longrightarrow>
      import_prompt data_versions False now prompt d r =
        (Inr (r\<lparr>skipped := skipped r + 1\<rparr>), d))
   \<and> (prompts_get (p_id prompt) d \<noteq> None \<longrightarrow>
        importData clock \<lparr>d_prompts = Some [prompt], d_versions = Some data_versions\<rparr> False d =
          (Inr \<lparr>imported = 0, skipped = 1, merged = 0\<rparr>, d))
   \<and> (importData clock data False d = (res, d') \<longrightarrow>
        (\<exists>ps vs. prompts d' = prompts d @ ps \<and> versions d' = versions d @ vs))
   \<and> (distinct (map p_id data_prompts)
        \<and> importData clock
             \<lparr>d_prompts = Some data_prompts, d_versions = Some data_versions\<rparr> False d =
            (Inr r', d'') \<longrightarrow>
        skipped r' = length (filter (\<lambda>p. prompts_get (p_id p) d \<noteq> None) data_prompts)
        \<and> imported r' = length (filter (\<lambda>p. prompts_get (p_id p) d = None) data_prompts)
        \<and> merged r' = 0)"
proof (intro conjI impI)
  assume "prompts_get (p_id prompt) d \<noteq> None"
  then show "import_prompt data_versions False now prompt d r =
      (Inr (r\<lparr>skipped := skipped r + 1\<rparr>), d)"
    by (rule import_prompt_skip)
next
  assume "prompts_get (p_id prompt) d \<noteq> None"
  then show "importData clock \<lparr>d_prompts = Some [prompt], d_versions = Some data_versions\<rparr>
      False d = (Inr \<lparr>imported = 0, skipped = 1, merged = 0\<rparr>, d)"
    by (simp add: importData_def import_prompt_skip)
next
  assume run: "importData clock data False d = (res, d')"
  show "\<exists>ps vs. prompts d' = prompts d @ ps \<and> versions d' = versions d @ vs"
  proof (cases "d_prompts data")
    case None
    with run show ?thesis by (simp add: importData_def)
  next
    case ps: (Some ps)
    show ?thesis
    proof (cases "d_versions data")
      case None
      with run ps show ?thesis by (simp add: importData_def)
    next
      case (Some vs)
      with run ps have
        "import_loop vs False clock 0 ps d \<lparr>imported = 0, skipped = 0, merged = 0\<rparr> = (res, d')"
        by (simp add: importData_def)
      then show ?thesis by (rule import_loop_nomerge_frame)
    qed
  qed
next
  assume h: "distinct (map p_id data_prompts)
        \<and> importData clock
             \<lparr>d_prompts = Some data_prompts, d_versions = Some data_versions\<rparr> False d =
            (Inr r', d'')"
  then have run: "import_loop data_versions False clock 0 data_prompts d
      \<lparr>imported = 0, skipped = 0, merged = 0\<rparr> = (Inr r', d'')"
    by (simp add: importData_def)
  from h have dist: "distinct (map p_id data_prompts)" by simp
  from import_loop_nomerge_counts[OF dist run]
  show "skipped r' = length (filter (\<lambda>p. prompts_get (p_id p) d \<noteq> None) data_prompts)"
    and "imported r' = length (filter (\<lambda>p. prompts_get (p_id p) d = None) data_prompts)"
    and "merged r' = 0"
    by (simp_all add: prompts_get_None)
qed

theorem importData_skip_existing_witness:
  "prompts_get (p_id sample_prompt) sample_db \<noteq> None
   \<and> import_prompt [sample_version, incoming_version, new_prompt_version] False 50
        sample_prompt sample_db \<lparr>imported = 0, skipped = 0, merged = 0\<rparr> =
       (Inr \<lparr>imported = 0, skipped = 1, merged = 0\<rparr>, sample_db)
   \<and> importData (\<lambda>k. 50)
        \<lparr>d_prompts = Some [sample_prompt],
         d_versions = Some [sample_version, incoming_version, new_prompt_version]\<rparr>
        False sample_db = (Inr \<lparr>imported = 0, skipped = 1, merged = 0\<rparr>, sample_db)
   \<and> distinct (map p_id [sample_prompt\<lparr>p_title := ''Hello''\<rparr>, new_prompt])
   \<and> importData (\<lambda>k. 50) sample_doc False sample_db =
       (Inr \<lparr>imported = 1, skipped = 1, merged = 0\<rparr>,
        \<lparr>prompts = prompts sample_db @ [new_prompt],
         versions = versions sample_db @ [new_prompt_version]\<rparr>)"
proof -
  have ex: "prompts_get (p_id sample_prompt) sample_db \<noteq> None"
    by (simp add: prompts_get_def sample_defs)
  have dist: "distinct (map p_id [sample_prompt\<lparr>p_title := ''Hello''\<rparr>, new_prompt])"
    by (simp add: sample_defs)
  have run: "importData (\<lambda>k. 50) sample_doc False sample_db =
       (Inr \<lparr>imported = 1, skipped = 1, merged = 0\<rparr>,
        \<lparr>prompts = prompts sample_db @ [new_prompt],
         versions = versions sample_db @ [new_prompt_version]\<rparr>)"
    by (simp add: run_defs sample_defs)
  note T = importData_skip_existing
         [where prompt = sample_prompt and d = sample_db
            and data_versions = "[sample_version, incoming_version, new_prompt_version]"
            and now = 50 and r = "\<lparr>imported = 0, skipped = 0, merged = 0\<rparr>"
            and clock = "\<lambda>k. 50" and data = sample_doc
            and res = "Inr \<lparr>imported = 1, skipped = 1, merged = 0\<rparr>"
            and d' = "\<lparr>prompts = prompts sample_db @ [new_prompt],
                       versions = versions sample_db @ [new_prompt_version]\<rparr>"
            and data_prompts = "[sample_prompt\<lparr>p_title := ''Hello''\<rparr>, new_prompt]"
            and r' = "\<lparr>imported = 1, skipped = 1, merged = 0\<rparr>"
            and d'' = "\<lparr>prompts = prompts sample_db @ [new_prompt],
                        versions = versions sample_db @ [new_prompt_version]\<rparr>"]
  have step: "import_prompt [sample_version, incoming_version, new_prompt_version] False 50
        sample_prompt sample_db \<lparr>imported = 0, skipped = 0, merged = 0\<rparr> =
       (Inr (\<lparr>imported = 0, skipped = 0, merged = 0\<rparr>
               \<lparr>skipped := skipped \<lparr>imported = 0, skipped = 0, merged = 0\<rparr> + 1\<rparr>),
        sample_db)"
    using T ex by blast
  have single: "importData (\<lambda>k. 50)
        \<lparr>d_prompts = Some [sample_prompt],
         d_versions = Some [sample_version, incoming_version, new_prompt_version]\<rparr>
        False sample_db = (Inr \<lparr>imported = 0, skipped = 1, merged = 0\<rparr>, sample_db)"
    using T ex by blast
  from step have step': "import_prompt [sample_version, incoming_version, new_prompt_version]
        False 50 sample_prompt sample_db \<lparr>imported = 0, skipped = 0, merged = 0\<rparr> =
       (Inr \<lparr>imported = 0, skipped = 1, merged = 0\<rparr>, sample_db)"
    by simp
  from ex step' single dist run show ?thesis by blast
qed

text \<open>
  C4. The merge branch decides whether an incoming version exists by looking through the
  stored versions of the same prompt only. Here the incoming version of the stored prompt
  \<open>p2\<close> has the id \<open>a1\<close>, which the table holds under the prompt \<open>p1\<close>: the check finds
  nothing, the version is handed to \<^verbatim>\<open>db.versions.add\<close>, the library rejects the key,
  and the import ends with that error; the metadata of \<open>p2\<close> is not overwritten and no
  counts are returned.
\<close>

theorem importData_merge_key_conflict:
  "prompts_get ''p2'' sample_db = Some other_prompt
   \<and> versions_get ''a1'' sample_db = Some sample_version
   \<and> importData (\<lambda>k. 50) conflicting_doc True sample_db = (Inl ConstraintError, sample_db)"
  by (simp add: run_defs sample_defs versions_get_def)



end
